theory Spec2Isabelle
  imports Main "HOL-Library.Word" "HOL-Library.Sublist"
begin

section \<open>JavaScript strings\<close>

text \<open>
  A JavaScript string is a sequence of UTF-16 code units. The literals of the source are
  ASCII and are written with \<open>lit\<close>.
\<close>

type_synonym code_unit = "16 word"
type_synonym jsstring = "code_unit list"

definition lit :: "string \<Rightarrow> jsstring" where
  "lit s = map of_char s"

text \<open>
  \<open>String.prototype.trim\<close> removes the code units of WhiteSpace and LineTerminator from
  both ends: TAB, LF, VT, FF, CR, SP, NBSP, U+1680, U+2000 to U+200A, LS, PS, U+202F,
  U+205F, U+3000 and the byte order mark.
\<close>

definition isWhiteSpace :: "code_unit \<Rightarrow> bool" where
  "isWhiteSpace c \<longleftrightarrow>
     c = 0x9 \<or> c = 0xA \<or> c = 0xB \<or> c = 0xC \<or> c = 0xD \<or> c = 0x20 \<or> c = 0xA0 \<or>
     c = 0x1680 \<or> (0x2000 \<le> c \<and> c \<le> 0x200A) \<or> c = 0x2028 \<or> c = 0x2029 \<or>
     c = 0x202F \<or> c = 0x205F \<or> c = 0x3000 \<or> c = 0xFEFF"

definition trim :: "jsstring \<Rightarrow> jsstring" where
  "trim s = rev (dropWhile isWhiteSpace (rev (dropWhile isWhiteSpace s)))"

definition startsWith :: "jsstring \<Rightarrow> jsstring \<Rightarrow> bool" where
  "startsWith s p \<longleftrightarrow> take (length p) s = p"

text \<open>\<open>s.indexOf(p)\<close>: the first position where \<open>p\<close> occurs in \<open>s\<close>, or \<open>-1\<close>.\<close>

fun indexOf :: "jsstring \<Rightarrow> jsstring \<Rightarrow> int" where
  "indexOf [] p = (if p = [] then 0 else - 1)"
| "indexOf (x # xs) p =
     (if startsWith (x # xs) p then 0
      else (let i = indexOf xs p in if i = - 1 then - 1 else i + 1))"

text \<open>
  \<open>s.slice(b, e)\<close>: a negative index counts from the end, and both are clamped to the
  string. \<open>s.slice(b)\<close> runs to the end.
\<close>

definition slice :: "jsstring \<Rightarrow> int \<Rightarrow> int \<Rightarrow> jsstring" where
  "slice s b e =
     (let n = int (length s);
          from = (if b < 0 then max (n + b) 0 else min b n);
          to = (if e < 0 then max (n + e) 0 else min e n)
      in take (nat (to - from)) (drop (nat from) s))"

definition sliceFrom :: "jsstring \<Rightarrow> int \<Rightarrow> jsstring" where
  "sliceFrom s b = slice s b (int (length s))"

text \<open>
  \<open>String.prototype.toLowerCase\<close> follows the Unicode case mappings, which are not part of
  the repository. Every function that lowercases takes it as the parameter
  \<open>toLowerCase\<close>, and the theorems hold for each such function. \<open>asciiLower\<close> is what
  it does on ASCII strings; the examples run with it.
\<close>

definition asciiLower :: "jsstring \<Rightarrow> jsstring" where
  "asciiLower s = map (\<lambda>c. if 0x41 \<le> c \<and> c \<le> 0x5A then c + 0x20 else c) s"

text \<open>
  An optional string is falsy when it is \<open>undefined\<close> or empty: \<open>orElse s d\<close> is
  \<open>s || d\<close>.
\<close>

definition orElse :: "jsstring option \<Rightarrow> jsstring \<Rightarrow> jsstring" where
  "orElse s d = (case s of None \<Rightarrow> d | Some v \<Rightarrow> if v = [] then d else v)"

text \<open>The decimal digits of a number, as a template literal prints a status code.\<close>

function Number_toString :: "nat \<Rightarrow> jsstring" where
  "Number_toString n =
     (if n < 10 then [of_nat (48 + n)]
      else Number_toString (n div 10) @ [of_nat (48 + n mod 10)])"
  by pat_completeness auto
termination
  by (relation "measure id") auto

declare Number_toString.simps [simp del]

section \<open>Header helpers\<close>

subsection \<open>sanitizeHeader\<close>

definition sanitizeHeader :: "(jsstring \<Rightarrow> jsstring) \<Rightarrow> jsstring \<Rightarrow> jsstring option" where
  "sanitizeHeader toLowerCase header =
     (let trimmed = trim header in
      if trimmed = [] then None
      else
        let colonIndex = indexOf trimmed (lit '':'') in
        if colonIndex = - 1 then None
        else
          let name = trim (slice trimmed 0 colonIndex);
              val = trim (sliceFrom trimmed (colonIndex + 1))
          in if name = [] \<or> val = [] then None
             else if startsWith name (lit '':'') then None
             else if toLowerCase name = lit ''accept-encoding'' then None
             else Some (name @ lit '': '' @ val))"

text \<open>
  The sanitizer as the specification words it: the string is trimmed and split at its
  first colon, each side is trimmed, and five conditions reject.
\<close>

definition beforeFirstColon :: "jsstring \<Rightarrow> jsstring" where
  "beforeFirstColon t = takeWhile (\<lambda>c. c \<noteq> 0x3A) t"

definition afterFirstColon :: "jsstring \<Rightarrow> jsstring" where
  "afterFirstColon t = drop 1 (dropWhile (\<lambda>c. c \<noteq> 0x3A) t)"

definition spec_name :: "jsstring \<Rightarrow> jsstring" where
  "spec_name h = trim (beforeFirstColon (trim h))"

definition spec_value :: "jsstring \<Rightarrow> jsstring" where
  "spec_value h = trim (afterFirstColon (trim h))"

definition spec_rejects :: "(jsstring \<Rightarrow> jsstring) \<Rightarrow> jsstring \<Rightarrow> bool" where
  "spec_rejects toLowerCase h \<longleftrightarrow>
     trim h = [] \<or> 0x3A \<notin> set (trim h) \<or> spec_name h = [] \<or> spec_value h = [] \<or>
     startsWith (spec_name h) (lit '':'') \<or>
     toLowerCase (spec_name h) = lit ''accept-encoding''"

subsection \<open>buildHeaders\<close>

text \<open>
  A \<open>Record<string, string>\<close> is given by its properties in the order they were inserted.
  \<open>Object.entries\<close> enumerates the keys that are array indices first, in ascending
  numeric order, and then the other keys in insertion order. An array index is the
  decimal form, without a leading zero, of an integer from 0 to \<open>2^32 - 2\<close>.
\<close>

definition isDigit :: "code_unit \<Rightarrow> bool" where
  "isDigit c \<longleftrightarrow> 0x30 \<le> c \<and> c \<le> 0x39"

definition digitsValue :: "jsstring \<Rightarrow> nat" where
  "digitsValue k = foldl (\<lambda>n c. 10 * n + (unat c - 48)) 0 k"

definition arrayIndex :: "jsstring \<Rightarrow> nat option" where
  "arrayIndex k =
     (if k \<noteq> [] \<and> list_all isDigit k \<and> (length k = 1 \<or> hd k \<noteq> 0x30)
         \<and> digitsValue k \<le> 4294967294
      then Some (digitsValue k) else None)"

definition indexOrder :: "jsstring \<Rightarrow> nat" where
  "indexOrder k = (case arrayIndex k of Some n \<Rightarrow> n | None \<Rightarrow> 0)"

definition Object_entries :: "(jsstring \<times> jsstring) list \<Rightarrow> (jsstring \<times> jsstring) list" where
  "Object_entries props =
     sort_key (\<lambda>(k, v). indexOrder k) (filter (\<lambda>(k, v). arrayIndex k \<noteq> None) props)
     @ filter (\<lambda>(k, v). arrayIndex k = None) props"

text \<open>The options of \<open>buildHeaders\<close>.\<close>

record BuildOptions =
  authToken :: "jsstring option"
  cookies :: "jsstring option"
  accept :: "jsstring option"
  additionalHeaders :: "(jsstring \<times> jsstring) list option"

text \<open>
  The loop over the additional headers: \<open>headers\<close> is the array the loop pushes to.
  A sanitized header is pushed when it is truthy (neither \<open>null\<close> nor empty).
\<close>

fun pushAdditional ::
  "(jsstring \<Rightarrow> jsstring) \<Rightarrow> (jsstring \<times> jsstring) list \<Rightarrow> jsstring list \<Rightarrow> jsstring list"
where
  "pushAdditional toLowerCase [] headers = headers"
| "pushAdditional toLowerCase ((name, val) # rest) headers =
     (case sanitizeHeader toLowerCase (name @ lit '': '' @ val) of
        Some sanitized \<Rightarrow>
          if sanitized \<noteq> [] then pushAdditional toLowerCase rest (headers @ [sanitized])
          else pushAdditional toLowerCase rest headers
      | None \<Rightarrow> pushAdditional toLowerCase rest headers)"

definition bearer :: "jsstring \<Rightarrow> jsstring" where
  "bearer t = (if startsWith t (lit ''Bearer '') then t else lit ''Bearer '' @ t)"

definition buildHeaders :: "(jsstring \<Rightarrow> jsstring) \<Rightarrow> BuildOptions \<Rightarrow> jsstring list" where
  "buildHeaders toLowerCase options =
     (let headers0 = [lit ''Accept: '' @ orElse (accept options) (lit ''application/json'')];
          headers1 =
            (case authToken options of
               Some t \<Rightarrow>
                 if t \<noteq> [] then headers0 @ [lit ''Authorization: '' @ bearer t] else headers0
             | None \<Rightarrow> headers0);
          headers2 =
            (case cookies options of
               Some c \<Rightarrow> if c \<noteq> [] then headers1 @ [lit ''Cookie: '' @ c] else headers1
             | None \<Rightarrow> headers1)
      in case additionalHeaders options of
           Some props \<Rightarrow> pushAdditional toLowerCase (Object_entries props) headers2
         | None \<Rightarrow> headers2)"

subsection \<open>buildHeadersWithRedaction\<close>

record RedactionOptions = BuildOptions +
  sensitiveHeaders :: "jsstring list option"
  excludeFromRedaction :: "jsstring list option"

text \<open>\<open>HeaderRedaction\<close> is \<open>{ request?: { headers?: string[] } }\<close>.\<close>

record HeaderRedaction_request =
  headers :: "jsstring list option"

record HeaderRedaction =
  request :: "HeaderRedaction_request option"

record HeadersWithRedaction =
  headers :: "jsstring list"
  redaction :: "HeaderRedaction list"

definition defaultSensitive :: "jsstring set" where
  "defaultSensitive = {lit ''authorization'', lit ''cookie'', lit ''x-api-key''}"

definition excludeSet :: "(jsstring \<Rightarrow> jsstring) \<Rightarrow> RedactionOptions \<Rightarrow> jsstring set" where
  "excludeSet toLowerCase options =
     set (map toLowerCase (case excludeFromRedaction options of None \<Rightarrow> [] | Some hs \<Rightarrow> hs))"

definition shouldRedact :: "(jsstring \<Rightarrow> jsstring) \<Rightarrow> RedactionOptions \<Rightarrow> jsstring \<Rightarrow> bool" where
  "shouldRedact toLowerCase options headerName =
     (let lower = toLowerCase headerName in
      if lower \<in> excludeSet toLowerCase options then False
      else if lower \<in> defaultSensitive then True
      else if (case sensitiveHeaders options of
                 None \<Rightarrow> False
               | Some hs \<Rightarrow> list_ex (\<lambda>h. toLowerCase h = lower) hs) then True
      else False)"

text \<open>
  The loop over the additional headers, on the two arrays it pushes to (\<open>hdrs\<close> is the
  source's \<open>headers\<close>). The name tested and listed for redaction is the key of the entry.
\<close>

fun pushAdditionalRedact ::
  "(jsstring \<Rightarrow> jsstring) \<Rightarrow> RedactionOptions \<Rightarrow> (jsstring \<times> jsstring) list \<Rightarrow>
   jsstring list \<times> jsstring list \<Rightarrow> jsstring list \<times> jsstring list"
where
  "pushAdditionalRedact toLowerCase options [] (hdrs, redactHeaders) =
     (hdrs, redactHeaders)"
| "pushAdditionalRedact toLowerCase options ((name, val) # rest) (hdrs, redactHeaders) =
     (case sanitizeHeader toLowerCase (name @ lit '': '' @ val) of
        Some sanitized \<Rightarrow>
          if sanitized \<noteq> [] then
            pushAdditionalRedact toLowerCase options rest
              (hdrs @ [sanitized],
               if shouldRedact toLowerCase options name then redactHeaders @ [name]
               else redactHeaders)
          else pushAdditionalRedact toLowerCase options rest (hdrs, redactHeaders)
      | None \<Rightarrow> pushAdditionalRedact toLowerCase options rest (hdrs, redactHeaders))"

definition collectHeaders ::
  "(jsstring \<Rightarrow> jsstring) \<Rightarrow> RedactionOptions \<Rightarrow> jsstring list \<times> jsstring list"
where
  "collectHeaders toLowerCase options =
     (let s0 = ([lit ''Accept: '' @ orElse (accept options) (lit ''application/json'')], []);
          s1 =
            (case authToken options of
               Some t \<Rightarrow>
                 if t \<noteq> [] then
                   (fst s0 @ [lit ''Authorization: '' @ bearer t],
                    if shouldRedact toLowerCase options (lit ''Authorization'')
                    then snd s0 @ [lit ''Authorization''] else snd s0)
                 else s0
             | None \<Rightarrow> s0);
          s2 =
            (case cookies options of
               Some c \<Rightarrow>
                 if c \<noteq> [] then
                   (fst s1 @ [lit ''Cookie: '' @ c],
                    if shouldRedact toLowerCase options (lit ''Cookie'')
                    then snd s1 @ [lit ''Cookie''] else snd s1)
                 else s1
             | None \<Rightarrow> s1)
      in case additionalHeaders options of
           Some props \<Rightarrow> pushAdditionalRedact toLowerCase options (Object_entries props) s2
         | None \<Rightarrow> s2)"

definition buildHeadersWithRedaction ::
  "(jsstring \<Rightarrow> jsstring) \<Rightarrow> RedactionOptions \<Rightarrow> HeadersWithRedaction"
where
  "buildHeadersWithRedaction toLowerCase options =
     (let (hdrs, redactHeaders) = collectHeaders toLowerCase options;
          redactions =
            (if length redactHeaders > 0
             then [\<lparr> request = Some \<lparr> HeaderRedaction_request.headers = Some redactHeaders \<rparr> \<rparr>]
             else [])
      in \<lparr> HeadersWithRedaction.headers = hdrs, redaction = redactions \<rparr>)"

text \<open>
  Reading a result back: the names a redaction descriptor list holds, and the name of a
  header string (what stands before its first colon).
\<close>

definition redactionNames :: "HeaderRedaction list \<Rightarrow> jsstring list" where
  "redactionNames rs =
     concat (map (\<lambda>r. case request r of
                         None \<Rightarrow> []
                       | Some q \<Rightarrow> (case HeaderRedaction_request.headers q of
                                      None \<Rightarrow> [] | Some hs \<Rightarrow> hs)) rs)"

definition headerName :: "jsstring \<Rightarrow> jsstring" where
  "headerName h = beforeFirstColon h"

text \<open>A key in sanitized form: not empty, no colon, no white space at either end.\<close>

definition cleanName :: "jsstring \<Rightarrow> bool" where
  "cleanName n \<longleftrightarrow>
     n \<noteq> [] \<and> 0x3A \<notin> set n \<and> \<not> isWhiteSpace (hd n) \<and> \<not> isWhiteSpace (last n)"

section \<open>Values, errors and the runtime\<close>

text \<open>
  A proof and a verification result are what \<open>response.json()\<close> returned, cast without a
  check: JSON values. Numbers are the integers.
\<close>

datatype json_value =
    JNull
  | JBool bool
  | JNum int
  | JStr jsstring
  | JArr "json_value list"
  | JObj "(jsstring \<times> json_value) list"

text \<open>A thrown \<open>Error\<close> with its message.\<close>

datatype js_error = Error jsstring

text \<open>The truthiness of a value, as \<open>verification && ...\<close> tests it.\<close>

fun truthy :: "json_value \<Rightarrow> bool" where
  "truthy JNull = False"
| "truthy (JBool b) = b"
| "truthy (JNum n) = (n \<noteq> 0)"
| "truthy (JStr s) = (s \<noteq> [])"
| "truthy (JArr xs) = True"
| "truthy (JObj kvs) = True"

text \<open>
  A \<open>Response\<close>: its status, its body as \<open>text()\<close> reads it (\<open>bodyText\<close>) and what
  \<open>json()\<close> makes of the body. \<open>ok\<close> is true for a status from 200 to 299.
\<close>

record Response =
  status :: nat
  bodyText :: jsstring
  json :: "js_error + json_value"

definition ok :: "Response \<Rightarrow> bool" where
  "ok response \<longleftrightarrow> 200 \<le> status response \<and> status response \<le> 299"

text \<open>
  What the functions call outside the repository, as fields of a runtime over a world
  \<open>'w\<close>: each call that acts on the world takes it and returns the new one; a call that
  can throw returns the error, if any.
  \<^item> \<open>fetch url method headers body\<close> answers with a response, or throws;
  \<^item> \<open>JSON_stringify v indent\<close> is \<open>JSON.stringify(v, null, indent)\<close>;
  \<^item> \<open>existsSync\<close>, \<open>mkdirSync\<close> (recursive) and \<open>writeFileSync\<close> are those of \<open>fs\<close>;
  \<^item> \<open>stdout_write\<close> is \<open>process.stdout.write\<close>;
  \<^item> \<open>Date_toISOString\<close> is \<open>new Date().toISOString()\<close>;
  \<^item> \<open>path_join\<close> is \<open>path.join\<close>.
\<close>

record 'w runtime =
  fetch ::
    "jsstring \<Rightarrow> jsstring \<Rightarrow> (jsstring \<times> jsstring) list \<Rightarrow> jsstring \<Rightarrow> 'w \<Rightarrow>
     (js_error + Response) \<times> 'w"
  JSON_stringify :: "json_value \<Rightarrow> nat \<Rightarrow> jsstring"
  existsSync :: "jsstring \<Rightarrow> 'w \<Rightarrow> bool \<times> 'w"
  mkdirSync :: "jsstring \<Rightarrow> 'w \<Rightarrow> js_error option \<times> 'w"
  writeFileSync :: "jsstring \<Rightarrow> jsstring \<Rightarrow> 'w \<Rightarrow> js_error option \<times> 'w"
  stdout_write :: "jsstring \<Rightarrow> 'w \<Rightarrow> 'w"
  Date_toISOString :: "'w \<Rightarrow> jsstring"
  path_join :: "jsstring \<Rightarrow> jsstring \<Rightarrow> jsstring"

section \<open>The client\<close>

definition PROVE_URL :: jsstring where
  "PROVE_URL = lit ''https://web-prover.vlayer.xyz/api/v1/prove''"

definition VERIFY_URL :: jsstring where
  "VERIFY_URL = lit ''https://web-prover.vlayer.xyz/api/v1/verify''"

record VouchCredentials =
  clientId :: jsstring
  secretToken :: jsstring

text \<open>The request; \<open>httpMethod\<close> is its field \<open>method\<close>.\<close>

record WebProofRequest =
  url :: jsstring
  httpMethod :: jsstring
  headers :: "jsstring list"
  maxRecvData :: "int option"
  redaction :: "HeaderRedaction list option"

definition HeaderRedaction_value :: "HeaderRedaction \<Rightarrow> json_value" where
  "HeaderRedaction_value r =
     JObj (case request r of
             None \<Rightarrow> []
           | Some q \<Rightarrow>
               [(lit ''request'',
                 JObj (case HeaderRedaction_request.headers q of
                         None \<Rightarrow> []
                       | Some hs \<Rightarrow> [(lit ''headers'', JArr (map JStr hs))]))])"

definition requestBody :: "WebProofRequest \<Rightarrow> json_value" where
  "requestBody req =
     JObj ([(lit ''url'', JStr (url req)),
            (lit ''method'', JStr (httpMethod req)),
            (lit ''headers'', JArr (map JStr (WebProofRequest.headers req)))]
           @ (case maxRecvData req of
                None \<Rightarrow> []
              | Some n \<Rightarrow> [(lit ''maxRecvData'', JNum n)])
           @ (case WebProofRequest.redaction req of
                None \<Rightarrow> []
              | Some rs \<Rightarrow>
                  if length rs > 0
                  then [(lit ''redaction'', JArr (map HeaderRedaction_value rs))]
                  else []))"

definition credentialHeaders :: "VouchCredentials \<Rightarrow> (jsstring \<times> jsstring) list" where
  "credentialHeaders credentials =
     [(lit ''Content-Type'', lit ''application/json''),
      (lit ''x-client-id'', clientId credentials),
      (lit ''Authorization'', lit ''Bearer '' @ secretToken credentials)]"

definition generateWebProof ::
  "'w runtime \<Rightarrow> VouchCredentials \<Rightarrow> WebProofRequest \<Rightarrow> 'w \<Rightarrow> (js_error + json_value) \<times> 'w"
where
  "generateWebProof rt credentials req w =
     (case fetch rt PROVE_URL (lit ''POST'') (credentialHeaders credentials)
             (JSON_stringify rt (requestBody req) 0) w of
        (Inl e, w') \<Rightarrow> (Inl e, w')
      | (Inr response, w') \<Rightarrow>
          if \<not> ok response then
            (Inl (Error (lit ''Vouch API error ('' @ Number_toString (status response)
                         @ lit ''): '' @ bodyText response)), w')
          else (json response, w'))"

definition verifyWebProof ::
  "'w runtime \<Rightarrow> VouchCredentials \<Rightarrow> json_value \<Rightarrow> 'w \<Rightarrow> (js_error + json_value) \<times> 'w"
where
  "verifyWebProof rt credentials prf w =
     (case fetch rt VERIFY_URL (lit ''POST'') (credentialHeaders credentials)
             (JSON_stringify rt prf 0) w of
        (Inl e, w') \<Rightarrow> (Inl e, w')
      | (Inr response, w') \<Rightarrow>
          if \<not> ok response then
            (Inl (Error (lit ''Verification API error ('' @ Number_toString (status response)
                         @ lit ''): '' @ bodyText response)), w')
          else (json response, w'))"

text \<open>The failure detail of a result: the message of the error thrown.\<close>

definition failureDetail :: "js_error + 'a \<Rightarrow> jsstring option" where
  "failureDetail r = (case r of Inl (Error msg) \<Rightarrow> Some msg | Inr _ \<Rightarrow> None)"

section \<open>The artifact sink\<close>

datatype OutputMode = File | Stdout | Return

record ProofArtifactPaths =
  proofPath :: jsstring
  verificationPath :: jsstring

record ProofArtifactOutput =
  mode :: OutputMode
  paths :: "ProofArtifactPaths option"
  json :: "jsstring option"

record OutputOptions =
  mode :: OutputMode
  outputDir :: "jsstring option"
  prefix :: "jsstring option"
  includeVerification :: "bool option"
  pretty :: "bool option"

definition orTrue :: "bool option \<Rightarrow> bool" where
  "orTrue b = (case b of None \<Rightarrow> True | Some v \<Rightarrow> v)"

definition indentOf :: "OutputOptions \<Rightarrow> nat" where
  "indentOf output = (if orTrue (pretty output) then 2 else 0)"

definition combinedOutput :: "json_value \<Rightarrow> json_value \<Rightarrow> OutputOptions \<Rightarrow> json_value" where
  "combinedOutput prf verification output =
     (if orTrue (includeVerification output)
      then JObj [(lit ''proof'', prf), (lit ''verification'', verification)]
      else JObj [(lit ''proof'', prf)])"

text \<open>\<open>toISOString().replace(/[:.]/g, '-')\<close>\<close>

definition timestampOf :: "jsstring \<Rightarrow> jsstring" where
  "timestampOf isoString = map (\<lambda>c. if c = 0x3A \<or> c = 0x2E then 0x2D else c) isoString"

text \<open>The block that ensures the directory exists.\<close>

definition ensureDirectory :: "'w runtime \<Rightarrow> jsstring \<Rightarrow> 'w \<Rightarrow> js_error option \<times> 'w" where
  "ensureDirectory rt dir w =
     (let (found, w0) = existsSync rt dir w
      in if \<not> found then mkdirSync rt dir w0 else (None, w0))"

text \<open>The two paths, from the clock read in world \<open>w\<close>; the prefix defaults to \<open>proof\<close>.\<close>

definition artifactPaths :: "'w runtime \<Rightarrow> OutputOptions \<Rightarrow> jsstring \<Rightarrow> 'w \<Rightarrow> ProofArtifactPaths" where
  "artifactPaths rt output dir w =
     (let pre = (case prefix output of None \<Rightarrow> lit ''proof'' | Some p \<Rightarrow> p);
          timestamp = timestampOf (Date_toISOString rt w)
      in \<lparr> proofPath = path_join rt dir (pre @ lit ''-'' @ timestamp @ lit ''.json''),
           verificationPath =
             path_join rt dir (pre @ lit ''-verification-'' @ timestamp @ lit ''.json'') \<rparr>)"

definition outputFile ::
  "'w runtime \<Rightarrow> json_value \<Rightarrow> json_value \<Rightarrow> OutputOptions \<Rightarrow> 'w \<Rightarrow>
   (js_error + ProofArtifactOutput) \<times> 'w"
where
  "outputFile rt prf verification output w =
     (let dir = (case outputDir output of None \<Rightarrow> [] | Some d \<Rightarrow> d)
      in if dir = [] then
           (Inl (Error (lit ''outputDir is required for file output mode'')), w)
         else
           (case ensureDirectory rt dir w of
              (Some e, w1) \<Rightarrow> (Inl e, w1)
            | (None, w1) \<Rightarrow>
               (let ps = artifactPaths rt output dir w1
                in (case writeFileSync rt (proofPath ps)
                           (JSON_stringify rt prf (indentOf output)) w1 of
                      (Some e, w2) \<Rightarrow> (Inl e, w2)
                    | (None, w2) \<Rightarrow>
                       (case (if truthy verification \<and> orTrue (includeVerification output)
                              then writeFileSync rt (verificationPath ps)
                                     (JSON_stringify rt verification (indentOf output)) w2
                              else (None, w2)) of
                          (Some e, w3) \<Rightarrow> (Inl e, w3)
                        | (None, w3) \<Rightarrow>
                            (Inr \<lparr> ProofArtifactOutput.mode = File, paths = Some ps,
                                   json = None \<rparr>, w3))))))"

definition outputProofArtifacts ::
  "'w runtime \<Rightarrow> json_value \<Rightarrow> json_value \<Rightarrow> OutputOptions \<Rightarrow> 'w \<Rightarrow>
   (js_error + ProofArtifactOutput) \<times> 'w"
where
  "outputProofArtifacts rt prf verification output w =
     (case mode output of
        Stdout \<Rightarrow>
          (let js = JSON_stringify rt (combinedOutput prf verification output) (indentOf output)
           in (Inr \<lparr> ProofArtifactOutput.mode = Stdout, paths = None, json = None \<rparr>,
               stdout_write rt (js @ lit ''\<newline>'') w))
      | Return \<Rightarrow>
          (let js = JSON_stringify rt (combinedOutput prf verification output) (indentOf output)
           in (Inr \<lparr> ProofArtifactOutput.mode = Return, paths = None, json = Some js \<rparr>, w))
      | File \<Rightarrow> outputFile rt prf verification output w)"

text \<open>Reading a result: the JSON text returned, if any.\<close>

definition returnedJson :: "(js_error + ProofArtifactOutput) \<times> 'w \<Rightarrow> jsstring option" where
  "returnedJson r = (case fst r of Inl _ \<Rightarrow> None | Inr out \<Rightarrow> ProofArtifactOutput.json out)"

section \<open>The specification's reading of the header builders\<close>

text \<open>
  The additional headers as the specification describes them: each entry goes through
  the sanitizer, and a rejected entry is dropped.
\<close>

definition sanitizedEntries ::
  "(jsstring \<Rightarrow> jsstring) \<Rightarrow> (jsstring \<times> jsstring) list \<Rightarrow> jsstring list"
where
  "sanitizedEntries toLowerCase entries =
     List.map_filter (\<lambda>(name, val). sanitizeHeader toLowerCase (name @ lit '': '' @ val)) entries"

text \<open>
  A name is sensitive when its lowercased form is in the default set or is that of a
  name the caller listed, and no excluded name has the same lowercased form.
\<close>

definition spec_sensitive :: "(jsstring \<Rightarrow> jsstring) \<Rightarrow> RedactionOptions \<Rightarrow> jsstring \<Rightarrow> bool" where
  "spec_sensitive toLowerCase options name \<longleftrightarrow>
     (toLowerCase name \<in> {lit ''authorization'', lit ''cookie'', lit ''x-api-key''} \<or>
      (\<exists>h \<in> set (case sensitiveHeaders options of None \<Rightarrow> [] | Some hs \<Rightarrow> hs).
         toLowerCase h = toLowerCase name)) \<and>
     \<not> (\<exists>e \<in> set (case excludeFromRedaction options of None \<Rightarrow> [] | Some es \<Rightarrow> es).
          toLowerCase e = toLowerCase name)"

text \<open>The properties of the additional headers, in insertion order.\<close>

definition entriesOf :: "RedactionOptions \<Rightarrow> (jsstring \<times> jsstring) list" where
  "entriesOf options = (case additionalHeaders options of None \<Rightarrow> [] | Some es \<Rightarrow> es)"

text \<open>
  The entries the sanitizer accepts, and the names of the headers emitted after the
  \<open>Accept\<close> header, as the code names them: the two fixed names and the keys of the
  accepted entries.
\<close>

definition acceptedEntries ::
  "(jsstring \<Rightarrow> jsstring) \<Rightarrow> (jsstring \<times> jsstring) list \<Rightarrow> (jsstring \<times> jsstring) list"
where
  "acceptedEntries toLowerCase entries =
     filter (\<lambda>(name, val). sanitizeHeader toLowerCase (name @ lit '': '' @ val) \<noteq> None) entries"

definition emittedNames :: "(jsstring \<Rightarrow> jsstring) \<Rightarrow> RedactionOptions \<Rightarrow> jsstring list" where
  "emittedNames toLowerCase options =
     (case authToken options of
        None \<Rightarrow> [] | Some t \<Rightarrow> if t = [] then [] else [lit ''Authorization''])
     @ (case cookies options of
          None \<Rightarrow> [] | Some c \<Rightarrow> if c = [] then [] else [lit ''Cookie''])
     @ map fst (acceptedEntries toLowerCase (Object_entries (entriesOf options)))"

section \<open>A runtime for the examples\<close>

text \<open>
  \<open>stringify\<close> is \<open>JSON.stringify\<close> on the values above: strings are quoted with the
  escapes of \<open>QuoteJSONString\<close>, and a non-zero indent puts each member on a line of its
  own.
\<close>

definition hexDigit :: "nat \<Rightarrow> code_unit" where
  "hexDigit d = (if d < 10 then of_nat (48 + d) else of_nat (87 + d))"

definition hex4 :: "code_unit \<Rightarrow> jsstring" where
  "hex4 c =
     (let n = unat c
      in map hexDigit [n div 4096 mod 16, n div 256 mod 16, n div 16 mod 16, n mod 16])"

definition quoteUnit :: "code_unit \<Rightarrow> jsstring" where
  "quoteUnit c =
     (if c = 0x08 then [0x5C, 0x62]
      else if c = 0x09 then [0x5C, 0x74]
      else if c = 0x0A then [0x5C, 0x6E]
      else if c = 0x0C then [0x5C, 0x66]
      else if c = 0x0D then [0x5C, 0x72]
      else if c = 0x22 then [0x5C, 0x22]
      else if c = 0x5C then [0x5C, 0x5C]
      else if c < 0x20 \<or> (0xD800 \<le> c \<and> c \<le> 0xDFFF) then [0x5C, 0x75] @ hex4 c
      else [c])"

fun quoteUnits :: "jsstring \<Rightarrow> jsstring" where
  "quoteUnits [] = []"
| "quoteUnits [c] = quoteUnit c"
| "quoteUnits (c # d # cs) =
     (if 0xD800 \<le> c \<and> c \<le> 0xDBFF \<and> 0xDC00 \<le> d \<and> d \<le> 0xDFFF
      then c # d # quoteUnits cs
      else quoteUnit c @ quoteUnits (d # cs))"

definition QuoteJSONString :: "jsstring \<Rightarrow> jsstring" where
  "QuoteJSONString s = [0x22] @ quoteUnits s @ [0x22]"

fun joinWith :: "jsstring \<Rightarrow> jsstring list \<Rightarrow> jsstring" where
  "joinWith sep [] = []"
| "joinWith sep [x] = x"
| "joinWith sep (x # y # ys) = x @ sep @ joinWith sep (y # ys)"

definition wrap :: "jsstring \<Rightarrow> jsstring \<Rightarrow> jsstring \<Rightarrow> jsstring \<Rightarrow> jsstring list \<Rightarrow> jsstring" where
  "wrap opening closing gap ind parts =
     (if parts = [] then opening @ closing
      else if gap = [] then opening @ joinWith (lit '','') parts @ closing
      else opening @ [0x0A] @ ind @ gap
           @ joinWith ([0x2C, 0x0A] @ ind @ gap) parts
           @ [0x0A] @ ind @ closing)"

fun serialize :: "jsstring \<Rightarrow> jsstring \<Rightarrow> json_value \<Rightarrow> jsstring" where
  "serialize gap ind JNull = lit ''null''"
| "serialize gap ind (JBool b) = (if b then lit ''true'' else lit ''false'')"
| "serialize gap ind (JNum n) =
     (if n < 0 then lit ''-'' @ Number_toString (nat (- n)) else Number_toString (nat n))"
| "serialize gap ind (JStr s) = QuoteJSONString s"
| "serialize gap ind (JArr xs) =
     wrap (lit ''['') (lit '']'') gap ind (map (serialize gap (ind @ gap)) xs)"
| "serialize gap ind (JObj kvs) =
     wrap (lit ''{'') (lit ''}'') gap ind
       (map (\<lambda>(k, v). QuoteJSONString k @ (if gap = [] then lit '':'' else lit '': '')
                        @ serialize gap (ind @ gap) v) kvs)"

definition stringify :: "json_value \<Rightarrow> nat \<Rightarrow> jsstring" where
  "stringify v indent = serialize (replicate (min indent 10) 0x20) [] v"

text \<open>
  The recording runtime: its world is the list of the calls made so far. \<open>fetch\<close> answers
  with a given response, a directory exists once it was made, no call throws, the clock
  stands at a given time, and \<open>path.join\<close> puts a slash between its two arguments.
\<close>

datatype io_event =
    Fetch jsstring jsstring "(jsstring \<times> jsstring) list" jsstring
  | ExistsSync jsstring
  | MkdirSync jsstring
  | WriteFileSync jsstring jsstring
  | StdoutWrite jsstring

definition recorder :: "Response \<Rightarrow> jsstring \<Rightarrow> io_event list runtime" where
  "recorder response clock =
     \<lparr> fetch = (\<lambda>u m hs b w. (Inr response, w @ [Fetch u m hs b])),
       JSON_stringify = stringify,
       existsSync = (\<lambda>p w. (MkdirSync p \<in> set w, w @ [ExistsSync p])),
       mkdirSync = (\<lambda>p w. (None, w @ [MkdirSync p])),
       writeFileSync = (\<lambda>p c w. (None, w @ [WriteFileSync p c])),
       stdout_write = (\<lambda>s w. w @ [StdoutWrite s]),
       Date_toISOString = (\<lambda>w. clock),
       path_join = (\<lambda>d f. d @ lit ''/'' @ f) \<rparr>"

text \<open>The text a run wrote to standard output.\<close>

fun emitted :: "io_event list \<Rightarrow> jsstring" where
  "emitted [] = []"
| "emitted (StdoutWrite s # es) = s @ emitted es"
| "emitted (_ # es) = emitted es"

text \<open>
  The values of the examples. The body \<open>forbidden\<close> of the 403 response is not JSON, so
  its \<open>json()\<close> throws.
\<close>

definition forbidden :: Response where
  "forbidden = \<lparr> status = 403, bodyText = lit ''forbidden'',
                 Response.json = Inl (Error (lit ''SyntaxError'')) \<rparr>"

definition exampleClock :: jsstring where
  "exampleClock = lit ''2026-01-15T10:30:00.000Z''"

definition exampleRuntime :: "io_event list runtime" where
  "exampleRuntime = recorder forbidden exampleClock"

definition exampleCredentials :: VouchCredentials where
  "exampleCredentials = \<lparr> clientId = lit ''client-1'', secretToken = lit ''s3cret'' \<rparr>"

definition exampleRequest :: WebProofRequest where
  "exampleRequest =
     \<lparr> url = lit ''https://api.example.com/data'', httpMethod = lit ''GET'',
       WebProofRequest.headers = [lit ''Accept: application/json''],
       maxRecvData = None, WebProofRequest.redaction = None \<rparr>"

definition exampleProof :: json_value where
  "exampleProof =
     JObj [(lit ''data'', JStr (lit ''01ab'')), (lit ''version'', JStr (lit ''0.1.0'')),
           (lit ''meta'', JObj [(lit ''notaryUrl'', JStr (lit ''https://notary.test''))])]"

definition exampleVerification :: json_value where
  "exampleVerification =
     JObj [(lit ''success'', JBool True), (lit ''serverDomain'', JStr (lit ''api.example.com'')),
           (lit ''notaryKeyFingerprint'', JStr (lit ''ab12''))]"

definition exampleOutput :: "OutputMode \<Rightarrow> OutputOptions" where
  "exampleOutput m =
     \<lparr> OutputOptions.mode = m, outputDir = Some (lit ''proofs''), prefix = None,
       includeVerification = None, pretty = Some False \<rparr>"

text \<open>The paths a run wrote files at.\<close>

fun writtenPaths :: "io_event list \<Rightarrow> jsstring list" where
  "writtenPaths [] = []"
| "writtenPaths (WriteFileSync p c # es) = p # writtenPaths es"
| "writtenPaths (_ # es) = writtenPaths es"

text \<open>
  \<open>JSON.stringify({ proof, verification }, null, 0)\<close> for the example proof and
  verification.
\<close>

definition exampleJson :: jsstring where
  \<open>exampleJson =
     lit ''{"proof":{"data":"01ab","version":"0.1.0","meta":{"notaryUrl":"https://notary.test"}},''
     @ lit ''"verification":{"success":true,"serverDomain":"api.example.com",''
     @ lit ''"notaryKeyFingerprint":"ab12"}}''\<close>

text \<open>Options with integer-like keys inserted after another key, and out of order.\<close>

definition numericKeys :: BuildOptions where
  "numericKeys =
     \<lparr> authToken = None, cookies = None, accept = None,
       additionalHeaders = Some [(lit ''X-B'', lit ''b''), (lit ''10'', lit ''x''),
                                 (lit ''2'', lit ''y'')] \<rparr>"

text \<open>Options for the examples of the redaction-aware builder.\<close>

definition acceptListed :: RedactionOptions where
  "acceptListed =
     \<lparr> authToken = None, cookies = None, accept = None, additionalHeaders = None,
       sensitiveHeaders = Some [lit ''Accept''], excludeFromRedaction = None \<rparr>"

definition untrimmedKey :: RedactionOptions where
  "untrimmedKey =
     \<lparr> authToken = None, cookies = None, accept = None,
       additionalHeaders = Some [(lit ''X-Token '', lit ''v'')],
       sensitiveHeaders = Some [lit ''X-Token ''], excludeFromRedaction = None \<rparr>"

definition tokenExcluded :: RedactionOptions where
  "tokenExcluded =
     \<lparr> authToken = Some (lit ''x''), cookies = None, accept = None,
       additionalHeaders = Some [(lit ''X-Api-Key'', lit ''k''), (lit ''X-Trace'', lit ''1'')],
       sensitiveHeaders = None, excludeFromRedaction = Some [lit ''authorization''] \<rparr>"

section \<open>The sanitizer\<close>

lemma lit_colon: "lit '':'' = [0x3A]"
  by (simp add: lit_def)

lemma lit_colon_space: "lit '': '' = [0x3A, 0x20]"
  by (simp add: lit_def)

lemma startsWith_single: "startsWith (x # xs) [c] \<longleftrightarrow> x = c"
  by (simp add: startsWith_def)

lemma indexOf_single_absent: "indexOf s [c] = - 1 \<longleftrightarrow> c \<notin> set s"
proof (induction s)
  case Nil
  show ?case by simp
next
  case (Cons x xs)
  have "0 \<le> indexOf xs [c] \<or> indexOf xs [c] = - 1"
    by (induction xs) (auto simp: Let_def)
  with Cons show ?case
    by (auto simp: startsWith_single Let_def)
qed

lemma indexOf_single_present:
  "c \<in> set s \<Longrightarrow> indexOf s [c] = int (length (takeWhile (\<lambda>x. x \<noteq> c) s))"
proof (induction s)
  case Nil
  then show ?case by simp
next
  case (Cons x xs)
  show ?case
  proof (cases "x = c")
    case True
    then show ?thesis by (simp add: startsWith_single)
  next
    case False
    with Cons.prems have "c \<in> set xs" by simp
    with Cons.IH False show ?thesis
      by (simp add: startsWith_single Let_def)
  qed
qed

lemma slice_prefix: "slice s 0 (int (length (takeWhile P s))) = takeWhile P s"
proof -
  have "length (takeWhile P s) \<le> length s"
    by (rule length_takeWhile_le)
  then show ?thesis
    by (simp add: slice_def Let_def min_def takeWhile_eq_take [symmetric])
qed

lemma sliceFrom_suffix:
  "sliceFrom s (int (length (takeWhile P s)) + 1) = drop 1 (dropWhile P s)"
proof -
  let ?k = "length (takeWhile P s)"
  have le: "?k \<le> length s"
    by (rule length_takeWhile_le)
  have "drop 1 (dropWhile P s) = drop (Suc ?k) s"
    by (simp add: dropWhile_eq_drop)
  moreover have "sliceFrom s (int ?k + 1) = drop (Suc ?k) s"
  proof (cases "?k = length s")
    case True
    then show ?thesis by (simp add: sliceFrom_def slice_def Let_def min_def)
  next
    case False
    with le have "?k < length s" by simp
    then show ?thesis
      by (simp add: sliceFrom_def slice_def Let_def min_def nat_add_distrib)
  qed
  ultimately show ?thesis by simp
qed

text \<open>The code and the specification's reading agree on every string.\<close>

lemma sanitizeHeader_eq:
  "sanitizeHeader lc h =
     (if spec_rejects lc h then None else Some (spec_name h @ lit '': '' @ spec_value h))"
proof (cases "0x3A \<in> set (trim h)")
  case False
  then have "indexOf (trim h) (lit '':'') = - 1"
    by (simp add: lit_colon indexOf_single_absent)
  with False show ?thesis
    by (simp add: sanitizeHeader_def spec_rejects_def Let_def)
next
  case True
  then have ne: "trim h \<noteq> []" by auto
  have ix: "indexOf (trim h) (lit '':'') = int (length (beforeFirstColon (trim h)))"
    using True by (simp add: lit_colon indexOf_single_present beforeFirstColon_def)
  have nm: "trim (slice (trim h) 0 (indexOf (trim h) (lit '':''))) = spec_name h"
    unfolding ix by (simp add: beforeFirstColon_def spec_name_def slice_prefix)
  have vl: "trim (sliceFrom (trim h) (indexOf (trim h) (lit '':'') + 1)) = spec_value h"
    unfolding ix
    by (simp add: beforeFirstColon_def afterFirstColon_def spec_value_def sliceFrom_suffix)
  have "indexOf (trim h) (lit '':'') \<noteq> - 1"
    unfolding ix by simp
  with True ne nm vl show ?thesis
    by (simp add: sanitizeHeader_def spec_rejects_def Let_def)
qed

lemma trim_ends:
  assumes "trim x \<noteq> []"
  shows "\<not> isWhiteSpace (hd (trim x))" and "\<not> isWhiteSpace (last (trim x))"
proof -
  let ?a = "dropWhile isWhiteSpace x"
  let ?b = "dropWhile isWhiteSpace (rev ?a)"
  from assms have b: "?b \<noteq> []" by (simp add: trim_def)
  then have "\<not> isWhiteSpace (hd ?b)" by (rule hd_dropWhile)
  with b show "\<not> isWhiteSpace (last (trim x))"
    by (simp add: trim_def last_rev)
  from b have "rev ?a \<noteq> []" by (metis dropWhile.simps(1))
  then have a: "?a \<noteq> []" by simp
  then have ha: "\<not> isWhiteSpace (hd ?a)" by (rule hd_dropWhile)
  have "rev ?a = takeWhile isWhiteSpace (rev ?a) @ ?b" by simp
  then have "?a = rev ?b @ rev (takeWhile isWhiteSpace (rev ?a))"
    by (metis rev_append rev_rev_ident)
  with b have "hd ?a = hd (rev ?b)" by (metis hd_append2 rev_is_Nil_conv)
  with ha show "\<not> isWhiteSpace (hd (trim x))" by (simp add: trim_def)
qed

lemma trim_fixed:
  assumes "s \<noteq> []" "\<not> isWhiteSpace (hd s)" "\<not> isWhiteSpace (last s)"
  shows "trim s = s"
proof -
  from assms(1,2) have "dropWhile isWhiteSpace s = s"
    by (cases s) simp_all
  moreover from assms(1,3) have "dropWhile isWhiteSpace (rev s) = rev s"
    by (cases "rev s") (simp_all add: last_rev [symmetric] hd_rev)
  ultimately show ?thesis by (simp add: trim_def)
qed

lemma set_trim: "set (trim s) \<subseteq> set s"
  by (auto simp: trim_def dest!: set_dropWhileD)

lemma spec_name_no_colon: "0x3A \<notin> set (spec_name h)"
proof -
  have "set (spec_name h) \<subseteq> set (beforeFirstColon (trim h))"
    unfolding spec_name_def by (rule set_trim)
  moreover have "0x3A \<notin> set (beforeFirstColon (trim h))"
    unfolding beforeFirstColon_def by (auto dest: set_takeWhileD)
  ultimately show ?thesis by blast
qed

lemma not_ws_colon: "\<not> isWhiteSpace 0x3A"
  by (simp add: isWhiteSpace_def)

lemma ws_space: "isWhiteSpace 0x20"
  by (simp add: isWhiteSpace_def)

text \<open>A clean name, a colon, a space and a trimmed value: how the sanitizer reads it.\<close>

lemma sanitized_shape:
  assumes n: "cleanName n"
    and v: "v \<noteq> []" "\<not> isWhiteSpace (hd v)" "\<not> isWhiteSpace (last v)"
  shows "trim (n @ lit '': '' @ v) = n @ lit '': '' @ v"
    and "spec_name (n @ lit '': '' @ v) = n"
    and "spec_value (n @ lit '': '' @ v) = v"
proof -
  let ?s = "n @ lit '': '' @ v"
  from n have n': "n \<noteq> []" "0x3A \<notin> set n" "\<not> isWhiteSpace (hd n)" "\<not> isWhiteSpace (last n)"
    by (simp_all add: cleanName_def)
  show t: "trim ?s = ?s"
    using n' v by (intro trim_fixed) (simp_all add: lit_colon_space)
  have "takeWhile (\<lambda>c. c \<noteq> 0x3A) ?s = n"
    using n'(2) by (simp add: lit_colon_space takeWhile_append)
  then show "spec_name ?s = n"
    using n' by (simp add: spec_name_def t beforeFirstColon_def trim_fixed)
  have "dropWhile (\<lambda>c. c \<noteq> 0x3A) ?s = 0x3A # 0x20 # v"
    using n'(2) by (simp add: lit_colon_space dropWhile_append)
  then have "afterFirstColon ?s = 0x20 # v"
    by (simp add: afterFirstColon_def)
  moreover have "trim (0x20 # v) = v"
  proof -
    have "dropWhile isWhiteSpace (0x20 # v) = v"
      using v by (cases v) (simp_all add: ws_space)
    moreover have "dropWhile isWhiteSpace (rev v) = rev v"
      using v by (cases "rev v") (simp_all add: last_rev [symmetric] hd_rev)
    ultimately show ?thesis by (simp add: trim_def)
  qed
  ultimately show "spec_value ?s = v"
    by (simp add: spec_value_def t)
qed

lemma spec_name_clean: "spec_name h \<noteq> [] \<Longrightarrow> cleanName (spec_name h)"
  using trim_ends [of "beforeFirstColon (trim h)"] spec_name_no_colon [of h]
  by (simp add: cleanName_def spec_name_def)

lemmas string_defs =
  lit_def trim_def isWhiteSpace_def startsWith_def slice_def sliceFrom_def asciiLower_def

lemmas spec_defs =
  spec_rejects_def spec_name_def spec_value_def beforeFirstColon_def afterFirstColon_def

text \<open>
  C1. For every string, \<open>sanitizeHeader\<close> returns \<open>null\<close> exactly when the string is
  empty after trimming, or holds no colon, or has an empty name or an empty value after
  splitting at the first colon and trimming each side, or has a name that begins with a
  colon, or has a name whose lowercased form is \<open>accept-encoding\<close>; in every other case
  it returns the trimmed name, a colon, one space and the trimmed value.
\<close>

theorem sanitizeHeader_null_iff:
  "(sanitizeHeader toLowerCase h = None \<longleftrightarrow> spec_rejects toLowerCase h) \<and>
   (\<not> spec_rejects toLowerCase h \<longrightarrow>
      sanitizeHeader toLowerCase h = Some (spec_name h @ lit '': '' @ spec_value h))"
proof (cases "spec_rejects toLowerCase h")
  case True
  then have "sanitizeHeader toLowerCase h = None"
    by (simp add: sanitizeHeader_eq)
  with True show ?thesis by simp
next
  case False
  then have "sanitizeHeader toLowerCase h = Some (spec_name h @ lit '': '' @ spec_value h)"
    by (simp add: sanitizeHeader_eq)
  with False show ?thesis by simp
qed

theorem sanitizeHeader_null_iff_witness:
  "\<not> spec_rejects asciiLower (lit ''  Content-Type :  text/plain '') \<and>
   sanitizeHeader asciiLower (lit ''  Content-Type :  text/plain '')
     = Some (lit ''Content-Type: text/plain'') \<and>
   spec_rejects asciiLower (lit ''Accept-Encoding: gzip'') \<and>
   sanitizeHeader asciiLower (lit ''Accept-Encoding: gzip'') = None \<and>
   spec_rejects asciiLower (lit '':authority: example.com'') \<and>
   sanitizeHeader asciiLower (lit '':authority: example.com'') = None"
proof -
  have a: "\<not> spec_rejects asciiLower (lit ''  Content-Type :  text/plain '')"
    by (simp add: spec_defs string_defs)
  have n: "spec_name (lit ''  Content-Type :  text/plain '') = lit ''Content-Type''"
    by (simp add: spec_defs string_defs)
  have v: "spec_value (lit ''  Content-Type :  text/plain '') = lit ''text/plain''"
    by (simp add: spec_defs string_defs)
  have r1: "spec_rejects asciiLower (lit ''Accept-Encoding: gzip'')"
    by (simp add: spec_defs string_defs)
  have r2: "spec_rejects asciiLower (lit '':authority: example.com'')"
    by (simp add: spec_defs string_defs)
  from a n v
    sanitizeHeader_null_iff [of asciiLower "lit ''  Content-Type :  text/plain ''"]
  have "sanitizeHeader asciiLower (lit ''  Content-Type :  text/plain '')
          = Some (lit ''Content-Type: text/plain'')"
    by (simp add: lit_def)
  moreover from r1 sanitizeHeader_null_iff [of asciiLower "lit ''Accept-Encoding: gzip''"]
  have "sanitizeHeader asciiLower (lit ''Accept-Encoding: gzip'') = None"
    by blast
  moreover from r2 sanitizeHeader_null_iff [of asciiLower "lit '':authority: example.com''"]
  have "sanitizeHeader asciiLower (lit '':authority: example.com'') = None"
    by blast
  ultimately show ?thesis
    using a r1 r2 by blast
qed

text \<open>
  C10. \<open>sanitizeHeader\<close> is idempotent on what it accepts: when it returns a string
  \<open>s\<close> for an input, it returns \<open>s\<close> for \<open>s\<close>.
\<close>

theorem sanitizeHeader_idempotent:
  assumes "sanitizeHeader toLowerCase h = Some s"
  shows "sanitizeHeader toLowerCase s = Some s"
proof -
  let ?n = "spec_name h" and ?v = "spec_value h"
  from assms have acc: "\<not> spec_rejects toLowerCase h" and s: "s = ?n @ lit '': '' @ ?v"
    by (auto simp: sanitizeHeader_eq split: if_splits)
  from acc have n: "?n \<noteq> []" and v: "?v \<noteq> []"
    and st: "\<not> startsWith ?n (lit '':'')" and ae: "toLowerCase ?n \<noteq> lit ''accept-encoding''"
    by (simp_all add: spec_rejects_def)
  have cn: "cleanName ?n"
    using n by (rule spec_name_clean)
  have ve: "\<not> isWhiteSpace (hd ?v)" "\<not> isWhiteSpace (last ?v)"
    using v unfolding spec_value_def by (simp_all add: trim_ends)
  note sh = sanitized_shape [OF cn v ve]
  have "0x3A \<in> set (?n @ lit '': '' @ ?v)"
    by (simp add: lit_colon_space)
  with n v st ae have "\<not> spec_rejects toLowerCase (?n @ lit '': '' @ ?v)"
    by (simp add: spec_rejects_def sh)
  then show ?thesis
    unfolding s by (simp add: sanitizeHeader_eq sh)
qed

theorem sanitizeHeader_idempotent_witness:
  "sanitizeHeader asciiLower (lit '' X-Id :  7 '') = Some (lit ''X-Id: 7'') \<and>
   sanitizeHeader asciiLower (lit ''X-Id: 7'') = Some (lit ''X-Id: 7'')"
proof -
  have h: "sanitizeHeader asciiLower (lit '' X-Id :  7 '') = Some (lit ''X-Id: 7'')"
    by (simp add: sanitizeHeader_def string_defs)
  from h show ?thesis
    using sanitizeHeader_idempotent [OF h] by simp
qed

section \<open>The header builder\<close>

lemma sanitizeHeader_nonempty: "sanitizeHeader lc h = Some s \<Longrightarrow> s \<noteq> []"
  by (auto simp: sanitizeHeader_eq lit_colon_space split: if_splits)

text \<open>\<open>Object.entries\<close> keeps the properties, and their order when no key is an array index.\<close>

lemma Object_entries_Nil: "Object_entries [] = []"
  by (simp add: Object_entries_def)

lemma set_Object_entries: "set (Object_entries props) = set props"
  by (auto simp: Object_entries_def)

lemma Object_entries_insertion_order:
  assumes "\<forall>(k, v) \<in> set props. arrayIndex k = None"
  shows "Object_entries props = props"
proof -
  from assms have "filter (\<lambda>(k, v). arrayIndex k \<noteq> None) props = []"
    by (auto simp: filter_empty_conv)
  moreover from assms have "filter (\<lambda>(k, v). arrayIndex k = None) props = props"
    by (auto simp: filter_id_conv)
  ultimately show ?thesis
    by (simp add: Object_entries_def)
qed

lemmas entries_defs =
  Object_entries_def indexOrder_def arrayIndex_def isDigit_def digitsValue_def

text \<open>The loop appends, to what was pushed before, the sanitized entries in order.\<close>

lemma pushAdditional_append:
  "pushAdditional lc entries hs = hs @ sanitizedEntries lc entries"
proof (induction entries arbitrary: hs)
  case Nil
  show ?case by (simp add: sanitizedEntries_def)
next
  case (Cons e entries)
  obtain name val where e: "e = (name, val)" by (cases e)
  show ?case
  proof (cases "sanitizeHeader lc (name @ lit '': '' @ val)")
    case None
    with Cons.IH show ?thesis
      by (simp add: e sanitizedEntries_def)
  next
    case (Some s)
    then have "s \<noteq> []" by (rule sanitizeHeader_nonempty)
    with Some Cons.IH [of "hs @ [s]"] show ?thesis
      by (simp add: e sanitizedEntries_def)
  qed
qed

text \<open>
  C4, as amended. For every options record, \<open>buildHeaders\<close> returns the \<open>Accept\<close> header
  (with \<open>options.accept\<close>, or \<open>application/json\<close> when it is absent or empty), then the
  \<open>Authorization\<close> header when a non-empty token is given, then the \<open>Cookie\<close> header when
  non-empty cookies are given, then the sanitized additional headers in the order in
  which \<open>Object.entries\<close> enumerates the mapping, the rejected ones dropped: the keys that
  are array indices first, in ascending numeric order, then the other keys in insertion
  order. When no key is an array index this is the mapping's insertion order.
  \<open>buildHeaders({})\<close> is the one header \<open>Accept: application/json\<close>. The result is a
  function of the options alone.
\<close>

theorem buildHeaders_order:
  "buildHeaders toLowerCase options =
     [lit ''Accept: '' @
        (case accept options of
           None \<Rightarrow> lit ''application/json''
         | Some a \<Rightarrow> if a = [] then lit ''application/json'' else a)]
     @ (case authToken options of
          None \<Rightarrow> []
        | Some t \<Rightarrow> if t = [] then [] else [lit ''Authorization: '' @ bearer t])
     @ (case cookies options of
          None \<Rightarrow> []
        | Some c \<Rightarrow> if c = [] then [] else [lit ''Cookie: '' @ c])
     @ (case additionalHeaders options of
          None \<Rightarrow> []
        | Some props \<Rightarrow> sanitizedEntries toLowerCase (Object_entries props))
   \<and> ((\<forall>(k, v) \<in> set props. arrayIndex k = None) \<longrightarrow> Object_entries props = props)
   \<and> buildHeaders toLowerCase
       \<lparr> authToken = None, cookies = None, accept = None, additionalHeaders = None \<rparr>
     = [lit ''Accept: application/json'']"
proof (intro conjI impI)
  show "buildHeaders toLowerCase options =
     [lit ''Accept: '' @
        (case accept options of
           None \<Rightarrow> lit ''application/json''
         | Some a \<Rightarrow> if a = [] then lit ''application/json'' else a)]
     @ (case authToken options of
          None \<Rightarrow> []
        | Some t \<Rightarrow> if t = [] then [] else [lit ''Authorization: '' @ bearer t])
     @ (case cookies options of
          None \<Rightarrow> []
        | Some c \<Rightarrow> if c = [] then [] else [lit ''Cookie: '' @ c])
     @ (case additionalHeaders options of
          None \<Rightarrow> []
        | Some props \<Rightarrow> sanitizedEntries toLowerCase (Object_entries props))"
    by (simp add: buildHeaders_def orElse_def pushAdditional_append Let_def
          split: option.splits)
  show "Object_entries props = props" if "\<forall>(k, v) \<in> set props. arrayIndex k = None"
    using that by (rule Object_entries_insertion_order)
  show "buildHeaders toLowerCase
       \<lparr> authToken = None, cookies = None, accept = None, additionalHeaders = None \<rparr>
     = [lit ''Accept: application/json'']"
    by (simp add: buildHeaders_def orElse_def lit_def)
qed

theorem buildHeaders_order_witness:
  "buildHeaders asciiLower
     \<lparr> authToken = Some (lit ''abc''), cookies = Some (lit ''sid=1''), accept = Some (lit ''text/plain''),
       additionalHeaders = Some [(lit ''X-One'', lit ''1''), (lit ''Accept-Encoding'', lit ''gzip''),
                                 (lit '' X-Two '', lit '' 2 '')] \<rparr>
   = [lit ''Accept: text/plain'', lit ''Authorization: Bearer abc'', lit ''Cookie: sid=1'',
      lit ''X-One: 1'', lit ''X-Two: 2'']"
proof -
  let ?props = "[(lit ''X-One'', lit ''1''), (lit ''Accept-Encoding'', lit ''gzip''),
                 (lit '' X-Two '', lit '' 2 '')]"
  let ?options = "\<lparr> authToken = Some (lit ''abc''), cookies = Some (lit ''sid=1''),
         accept = Some (lit ''text/plain''), additionalHeaders = Some ?props \<rparr>"
  note order = buildHeaders_order [of asciiLower ?options ?props]
  have "\<forall>(k, v) \<in> set ?props. arrayIndex k = None"
    by (simp add: arrayIndex_def isDigit_def lit_def)
  with order have same: "Object_entries ?props = ?props"
    by blast
  have "sanitizedEntries asciiLower ?props = [lit ''X-One: 1'', lit ''X-Two: 2'']"
    by (simp add: sanitizedEntries_def sanitizeHeader_def string_defs)
  with order same show ?thesis
    by (simp add: bearer_def startsWith_def lit_def)
qed

text \<open>
  The claim as it stands fails on integer-like keys: inserted after \<open>X-B\<close> and out of
  order, the keys \<open>10\<close> and \<open>2\<close> are emitted first and in ascending order.
\<close>

theorem insertion_order_not_kept:
  "buildHeaders asciiLower numericKeys
     = [lit ''Accept: application/json'', lit ''2: y'', lit ''10: x'', lit ''X-B: b''] \<and>
   sanitizedEntries asciiLower
       [(lit ''X-B'', lit ''b''), (lit ''10'', lit ''x''), (lit ''2'', lit ''y'')]
     = [lit ''X-B: b'', lit ''10: x'', lit ''2: y''] \<and>
   buildHeaders asciiLower numericKeys
     \<noteq> [lit ''Accept: application/json'']
        @ sanitizedEntries asciiLower
            [(lit ''X-B'', lit ''b''), (lit ''10'', lit ''x''), (lit ''2'', lit ''y'')]"
proof -
  have run: "buildHeaders asciiLower numericKeys
     = [lit ''Accept: application/json'', lit ''2: y'', lit ''10: x'', lit ''X-B: b'']"
    by (simp add: buildHeaders_def numericKeys_def entries_defs orElse_def sanitizeHeader_def
          string_defs)
  have ins: "sanitizedEntries asciiLower
       [(lit ''X-B'', lit ''b''), (lit ''10'', lit ''x''), (lit ''2'', lit ''y'')]
     = [lit ''X-B: b'', lit ''10: x'', lit ''2: y'']"
    by (simp add: sanitizedEntries_def sanitizeHeader_def string_defs)
  have "lit ''2: y'' \<noteq> lit ''X-B: b''"
    by (simp add: lit_def)
  with run ins show ?thesis
    by simp
qed

text \<open>
  C5. For every non-empty token \<open>t\<close>, \<open>buildHeaders({authToken: t})\<close> emits
  \<open>Authorization: Bearer\<close> and \<open>t\<close> when \<open>t\<close> does not start with \<open>Bearer\<close> and a space,
  and \<open>Authorization:\<close> with \<open>t\<close> unchanged when it does; so the tokens \<open>abc\<close> and
  \<open>Bearer abc\<close> give the same header.
\<close>

theorem buildHeaders_bearer:
  assumes "t \<noteq> []"
  shows "buildHeaders toLowerCase
           \<lparr> authToken = Some t, cookies = None, accept = None, additionalHeaders = None \<rparr>
         = [lit ''Accept: application/json'',
            if startsWith t (lit ''Bearer '') then lit ''Authorization: '' @ t
            else lit ''Authorization: Bearer '' @ t]"
proof -
  have "lit ''Authorization: '' @ lit ''Bearer '' @ t = lit ''Authorization: Bearer '' @ t"
    by (simp add: lit_def)
  with assms show ?thesis
    by (simp add: buildHeaders_def orElse_def bearer_def Let_def lit_def)
qed

theorem buildHeaders_bearer_witness:
  "buildHeaders asciiLower
     \<lparr> authToken = Some (lit ''abc''), cookies = None, accept = None, additionalHeaders = None \<rparr>
   = [lit ''Accept: application/json'', lit ''Authorization: Bearer abc''] \<and>
   buildHeaders asciiLower
     \<lparr> authToken = Some (lit ''Bearer abc''), cookies = None, accept = None,
       additionalHeaders = None \<rparr>
   = [lit ''Accept: application/json'', lit ''Authorization: Bearer abc'']"
proof -
  have a: "lit ''abc'' \<noteq> []" and b: "lit ''Bearer abc'' \<noteq> []"
    by (simp_all add: lit_def)
  show ?thesis
    using buildHeaders_bearer [OF a, of asciiLower] buildHeaders_bearer [OF b, of asciiLower]
    by (simp add: startsWith_def lit_def)
qed

section \<open>The redaction-aware builder\<close>

lemma shouldRedact_spec: "shouldRedact lc options name \<longleftrightarrow> spec_sensitive lc options name"
proof -
  let ?ex = "case excludeFromRedaction options of None \<Rightarrow> [] | Some es \<Rightarrow> es"
  let ?se = "case sensitiveHeaders options of None \<Rightarrow> [] | Some hs \<Rightarrow> hs"
  have ex: "lc name \<in> excludeSet lc options \<longleftrightarrow> (\<exists>e \<in> set ?ex. lc e = lc name)"
  proof (cases "excludeFromRedaction options")
    case None
    then show ?thesis by (simp add: excludeSet_def)
  next
    case (Some es)
    then show ?thesis by (simp add: excludeSet_def image_iff eq_commute)
  qed
  have se: "(case sensitiveHeaders options of
               None \<Rightarrow> False | Some hs \<Rightarrow> list_ex (\<lambda>h. lc h = lc name) hs)
            \<longleftrightarrow> (\<exists>h \<in> set ?se. lc h = lc name)"
    by (cases "sensitiveHeaders options") (simp_all add: list_ex_iff)
  show ?thesis
    unfolding shouldRedact_def spec_sensitive_def Let_def ex se defaultSensitive_def
    by auto
qed

text \<open>The loop lists, in order, the keys of the accepted entries that are to be redacted.\<close>

lemma pushAdditionalRedact_append:
  "pushAdditionalRedact lc options entries (hs, rs) =
     (hs @ sanitizedEntries lc entries,
      rs @ filter (shouldRedact lc options) (map fst (acceptedEntries lc entries)))"
proof (induction entries arbitrary: hs rs)
  case Nil
  show ?case by (simp add: sanitizedEntries_def acceptedEntries_def)
next
  case (Cons e entries)
  obtain name val where e: "e = (name, val)" by (cases e)
  show ?case
  proof (cases "sanitizeHeader lc (name @ lit '': '' @ val)")
    case None
    with Cons.IH show ?thesis
      by (simp add: e sanitizedEntries_def acceptedEntries_def)
  next
    case (Some s)
    then have "s \<noteq> []" by (rule sanitizeHeader_nonempty)
    with Some Cons.IH show ?thesis
      by (simp add: e sanitizedEntries_def acceptedEntries_def)
  qed
qed

lemma collectHeaders_names:
  "snd (collectHeaders lc options) = filter (shouldRedact lc options) (emittedNames lc options)"
  by (simp add: collectHeaders_def emittedNames_def entriesOf_def pushAdditionalRedact_append
        Object_entries_Nil acceptedEntries_def Let_def split: option.splits)

lemma redactionNames_build:
  "redactionNames (HeadersWithRedaction.redaction (buildHeadersWithRedaction lc options)) =
     snd (collectHeaders lc options)"
  by (cases "collectHeaders lc options")
     (simp add: buildHeadersWithRedaction_def redactionNames_def)

lemma headers_build:
  "HeadersWithRedaction.headers (buildHeadersWithRedaction lc options) =
     fst (collectHeaders lc options)"
  by (cases "collectHeaders lc options") (simp add: buildHeadersWithRedaction_def Let_def)

text \<open>A clean key is the name the sanitizer reads, whatever the value.\<close>

lemma trim_clean_prefix:
  assumes "cleanName n"
  shows "\<exists>r. trim (n @ 0x3A # rest) = n @ 0x3A # r"
proof -
  let ?s = "n @ 0x3A # rest"
  from assms have n: "n \<noteq> []" "\<not> isWhiteSpace (hd n)"
    by (simp_all add: cleanName_def)
  then have front: "dropWhile isWhiteSpace ?s = ?s"
    by (cases n) simp_all
  have tail_fact: "\<exists>r. dropWhile isWhiteSpace (rev rest @ 0x3A # rev n) = r @ 0x3A # rev n"
  proof (cases "\<forall>x \<in> set (rev rest). isWhiteSpace x")
    case True
    then have "dropWhile isWhiteSpace (rev rest @ 0x3A # rev n)
                 = dropWhile isWhiteSpace (0x3A # rev n)"
      by (intro dropWhile_append2) blast
    then have "dropWhile isWhiteSpace (rev rest @ 0x3A # rev n) = [] @ 0x3A # rev n"
      by (simp add: not_ws_colon)
    then show ?thesis by blast
  next
    case False
    then obtain x where "x \<in> set (rev rest)" "\<not> isWhiteSpace x" by blast
    then have "dropWhile isWhiteSpace (rev rest @ 0x3A # rev n)
                 = dropWhile isWhiteSpace (rev rest) @ 0x3A # rev n"
      by (rule dropWhile_append1)
    then show ?thesis by blast
  qed
  then obtain r where "dropWhile isWhiteSpace (rev rest @ 0x3A # rev n) = r @ 0x3A # rev n"
    by blast
  then have "trim ?s = n @ 0x3A # rev r"
    by (simp add: trim_def front)
  then show ?thesis by blast
qed

lemma spec_name_clean_key:
  assumes "cleanName n"
  shows "spec_name (n @ lit '': '' @ v) = n"
proof -
  from trim_clean_prefix [OF assms, of "0x20 # v"]
  obtain r where r: "trim (n @ lit '': '' @ v) = n @ 0x3A # r"
    by (auto simp: lit_colon_space)
  from assms have "0x3A \<notin> set n" by (simp add: cleanName_def)
  then have "beforeFirstColon (n @ 0x3A # r) = n"
    by (simp add: beforeFirstColon_def takeWhile_append)
  moreover from assms have "trim n = n"
    by (simp add: cleanName_def trim_fixed)
  ultimately show ?thesis
    by (simp add: spec_name_def r)
qed

lemma headerName_prefix: "0x3A \<notin> set n \<Longrightarrow> headerName (n @ lit '': '' @ v) = n"
  by (simp add: headerName_def beforeFirstColon_def lit_colon_space takeWhile_append)

lemma headerName_sanitized:
  assumes "cleanName n" and "sanitizeHeader lc (n @ lit '': '' @ v) = Some s"
  shows "headerName s = n"
proof -
  from assms(2) have "s = spec_name (n @ lit '': '' @ v) @ lit '': '' @ spec_value (n @ lit '': '' @ v)"
    by (auto simp: sanitizeHeader_eq split: if_splits)
  then have "s = n @ lit '': '' @ spec_value (n @ lit '': '' @ v)"
    by (simp add: spec_name_clean_key [OF assms(1)])
  moreover from assms(1) have "0x3A \<notin> set n" by (simp add: cleanName_def)
  ultimately show ?thesis by (simp add: headerName_prefix)
qed

lemma headerName_sanitizedEntries:
  "\<forall>(n, v) \<in> set entries. cleanName n \<Longrightarrow>
   map headerName (sanitizedEntries lc entries) = map fst (acceptedEntries lc entries)"
proof (induction entries)
  case Nil
  show ?case by (simp add: sanitizedEntries_def acceptedEntries_def)
next
  case (Cons e entries)
  obtain n v where e: "e = (n, v)" by (cases e)
  from Cons.prems have clean: "cleanName n" and rest: "\<forall>(n, v) \<in> set entries. cleanName n"
    by (simp_all add: e)
  show ?case
  proof (cases "sanitizeHeader lc (n @ lit '': '' @ v)")
    case None
    with Cons.IH [OF rest] show ?thesis
      by (simp add: e sanitizedEntries_def acceptedEntries_def)
  next
    case (Some s)
    with clean have "headerName s = n" by (rule headerName_sanitized)
    with Some Cons.IH [OF rest] show ?thesis
      by (simp add: e sanitizedEntries_def acceptedEntries_def)
  qed
qed

lemma collectHeaders_fst:
  "fst (collectHeaders lc options) =
     (lit ''Accept: '' @ orElse (accept options) (lit ''application/json''))
     # (case authToken options of
          None \<Rightarrow> []
        | Some t \<Rightarrow> if t = [] then [] else [lit ''Authorization: '' @ bearer t])
     @ (case cookies options of
          None \<Rightarrow> []
        | Some c \<Rightarrow> if c = [] then [] else [lit ''Cookie: '' @ c])
     @ sanitizedEntries lc (Object_entries (entriesOf options))"
  by (simp add: collectHeaders_def entriesOf_def pushAdditionalRedact_append Let_def
        Object_entries_Nil sanitizedEntries_def split: option.splits)

lemma collectHeaders_headerNames:
  assumes "\<forall>(n, v) \<in> set (entriesOf options). cleanName n"
  shows "map headerName (tl (fst (collectHeaders lc options))) = emittedNames lc options"
proof -
  have a: "headerName (lit ''Authorization: '' @ x) = lit ''Authorization''" for x
    using headerName_prefix [of "lit ''Authorization''" x] by (simp add: lit_def)
  have c: "headerName (lit ''Cookie: '' @ x) = lit ''Cookie''" for x
    using headerName_prefix [of "lit ''Cookie''" x] by (simp add: lit_def)
  from assms have "\<forall>(n, v) \<in> set (Object_entries (entriesOf options)). cleanName n"
    by (simp only: set_Object_entries)
  then show ?thesis
    by (simp add: collectHeaders_fst emittedNames_def headerName_sanitizedEntries a c
          split: option.splits)
qed

text \<open>
  What holds of the redaction list for every options record: it lists, in emission
  order, the emitted names that are to be redacted, in one descriptor when there is any;
  and when the keys are in sanitized form, each listed name is that of an emitted header.
\<close>

lemma listed_names_in_order:
  "redactionNames (HeadersWithRedaction.redaction (buildHeadersWithRedaction lc options)) =
     filter (shouldRedact lc options) (emittedNames lc options)"
  by (simp add: redactionNames_build collectHeaders_names)

lemma redaction_shape:
  "HeadersWithRedaction.redaction (buildHeadersWithRedaction lc options) =
     (if snd (collectHeaders lc options) = [] then []
      else [\<lparr> request = Some \<lparr> HeaderRedaction_request.headers
                                    = Some (snd (collectHeaders lc options)) \<rparr> \<rparr>])"
  by (cases "collectHeaders lc options") (simp add: buildHeadersWithRedaction_def)

lemma listed_names_present:
  assumes "\<forall>(n, v) \<in> set (entriesOf options). cleanName n"
  shows "set (redactionNames (HeadersWithRedaction.redaction
                                (buildHeadersWithRedaction lc options)))
         \<subseteq> headerName ` set (tl (HeadersWithRedaction.headers
                                     (buildHeadersWithRedaction lc options)))"
proof -
  have "set (emittedNames lc options)
          = headerName ` set (tl (fst (collectHeaders lc options)))"
    using collectHeaders_headerNames [OF assms, of lc, symmetric] by (metis set_map)
  then show ?thesis
    by (auto simp: listed_names_in_order headers_build)
qed

text \<open>
  C2, as amended. For every options record whose additional-header keys are in sanitized
  form (not empty, no colon, no white space at either end), the name of each header
  emitted after the leading \<open>Accept\<close> header is in the redaction-name list if and only if
  its lowercased form is in the default sensitive set or is that of a name in
  \<open>sensitiveHeaders\<close>, and is that of no name in \<open>excludeFromRedaction\<close>. The leading
  \<open>Accept\<close> header is never tested.
\<close>

theorem redacted_iff_sensitive:
  assumes "\<forall>(n, v) \<in> set (entriesOf options). cleanName n"
  shows "\<forall>h \<in> set (tl (HeadersWithRedaction.headers
                        (buildHeadersWithRedaction toLowerCase options))).
           headerName h \<in> set (redactionNames
                                 (HeadersWithRedaction.redaction (buildHeadersWithRedaction toLowerCase options)))
           \<longleftrightarrow> spec_sensitive toLowerCase options (headerName h)"
proof
  fix h
  assume "h \<in> set (tl (HeadersWithRedaction.headers
                          (buildHeadersWithRedaction toLowerCase options)))"
  then have "headerName h \<in> set (map headerName (tl (fst (collectHeaders toLowerCase options))))"
    by (simp add: headers_build)
  then have "headerName h \<in> set (emittedNames toLowerCase options)"
    by (simp only: collectHeaders_headerNames [OF assms])
  then show "headerName h \<in> set (redactionNames
                                 (HeadersWithRedaction.redaction (buildHeadersWithRedaction toLowerCase options)))
           \<longleftrightarrow> spec_sensitive toLowerCase options (headerName h)"
    by (simp add: redactionNames_build collectHeaders_names shouldRedact_spec)
qed

lemmas builder_defs =
  buildHeadersWithRedaction_def collectHeaders_def shouldRedact_def excludeSet_def
  defaultSensitive_def orElse_def bearer_def sanitizeHeader_def redactionNames_def
  headerName_def beforeFirstColon_def

theorem redacted_iff_sensitive_witness:
  "HeadersWithRedaction.headers (buildHeadersWithRedaction asciiLower tokenExcluded)
     = [lit ''Accept: application/json'', lit ''Authorization: Bearer x'',
        lit ''X-Api-Key: k'', lit ''X-Trace: 1''] \<and>
   lit ''X-Api-Key'' \<in> set (redactionNames
                               (HeadersWithRedaction.redaction (buildHeadersWithRedaction asciiLower tokenExcluded))) \<and>
   lit ''Authorization'' \<notin> set (redactionNames
                               (HeadersWithRedaction.redaction (buildHeadersWithRedaction asciiLower tokenExcluded))) \<and>
   lit ''X-Trace'' \<notin> set (redactionNames
                               (HeadersWithRedaction.redaction (buildHeadersWithRedaction asciiLower tokenExcluded)))"
proof -
  let ?r = "buildHeadersWithRedaction asciiLower tokenExcluded"
  have clean: "\<forall>(n, v) \<in> set (entriesOf tokenExcluded). cleanName n"
    by (simp add: entriesOf_def tokenExcluded_def cleanName_def string_defs)
  have hs: "HeadersWithRedaction.headers ?r
     = [lit ''Accept: application/json'', lit ''Authorization: Bearer x'',
        lit ''X-Api-Key: k'', lit ''X-Trace: 1'']"
    by (simp add: tokenExcluded_def builder_defs entries_defs string_defs)
  have names: "headerName (lit ''Authorization: Bearer x'') = lit ''Authorization''"
    "headerName (lit ''X-Api-Key: k'') = lit ''X-Api-Key''"
    "headerName (lit ''X-Trace: 1'') = lit ''X-Trace''"
    by (simp_all add: headerName_def beforeFirstColon_def lit_def)
  have sens: "spec_sensitive asciiLower tokenExcluded (lit ''X-Api-Key'')"
    "\<not> spec_sensitive asciiLower tokenExcluded (lit ''Authorization'')"
    "\<not> spec_sensitive asciiLower tokenExcluded (lit ''X-Trace'')"
    by (simp_all add: spec_sensitive_def tokenExcluded_def string_defs)
  from redacted_iff_sensitive [OF clean, of asciiLower] hs
  have "\<forall>h \<in> set [lit ''Authorization: Bearer x'', lit ''X-Api-Key: k'', lit ''X-Trace: 1''].
          headerName h \<in> set (redactionNames (HeadersWithRedaction.redaction ?r))
          \<longleftrightarrow> spec_sensitive asciiLower tokenExcluded (headerName h)"
    by simp
  with names sens hs show ?thesis
    by simp
qed

text \<open>
  The claim as it stands fails on the leading \<open>Accept\<close> header: listed in
  \<open>sensitiveHeaders\<close> and not excluded, it is emitted and not listed for redaction.
\<close>

theorem accept_never_redacted:
  "HeadersWithRedaction.headers (buildHeadersWithRedaction asciiLower acceptListed)
     = [lit ''Accept: application/json''] \<and>
   headerName (lit ''Accept: application/json'') = lit ''Accept'' \<and>
   spec_sensitive asciiLower acceptListed (lit ''Accept'') \<and>
   lit ''Accept'' \<notin> set (redactionNames
                            (HeadersWithRedaction.redaction (buildHeadersWithRedaction asciiLower acceptListed)))"
  by (simp add: acceptListed_def builder_defs spec_sensitive_def string_defs)

text \<open>
  C3. Every name in the redaction list should be the name of a header in the returned
  list. It fails on a key that the sanitizer changes: the header is emitted under the
  trimmed name, and the key as given is listed for redaction, so that no returned header
  is the listed name followed by a colon and a space.
\<close>

theorem untrimmed_key_listed:
  "buildHeadersWithRedaction asciiLower untrimmedKey
     = \<lparr> HeadersWithRedaction.headers = [lit ''Accept: application/json'', lit ''X-Token: v''],
         HeadersWithRedaction.redaction = [\<lparr> request = Some \<lparr> HeaderRedaction_request.headers
                                           = Some [lit ''X-Token ''] \<rparr> \<rparr>] \<rparr> \<and>
   \<not> startsWith (lit ''Accept: application/json'') (lit ''X-Token '' @ lit '': '') \<and>
   \<not> startsWith (lit ''X-Token: v'') (lit ''X-Token '' @ lit '': '')"
  by (simp add: untrimmedKey_def builder_defs entries_defs string_defs)

section \<open>The client\<close>

text \<open>The message thrown holds the status code and the body.\<close>

lemma thrown_message:
  "sublist code (pre @ code @ mid @ body) \<and> sublist body (pre @ code @ mid @ body)"
proof
  show "sublist code (pre @ code @ mid @ body)"
    by (rule sublist_appendI)
  have "pre @ code @ mid @ body = (pre @ code @ mid) @ body @ []"
    by simp
  then show "sublist body (pre @ code @ mid @ body)"
    by (metis sublist_appendI)
qed

text \<open>
  C6. When the response to \<open>generateWebProof\<close> or \<open>verifyWebProof\<close> has a status that is
  not a success (outside 200 to 299), the operation throws and returns no result, and
  the message thrown contains the decimal status code and the body text of the response.
\<close>

theorem nonSuccess_status_throws:
  assumes "\<not> ok response"
  shows "(fst (fetch rt PROVE_URL (lit ''POST'') (credentialHeaders credentials)
                 (JSON_stringify rt (requestBody req) 0) w) = Inr response \<longrightarrow>
          (\<exists>msg. fst (generateWebProof rt credentials req w) = Inl (Error msg) \<and>
                 sublist (Number_toString (status response)) msg \<and>
                 sublist (bodyText response) msg)) \<and>
         (fst (fetch rt VERIFY_URL (lit ''POST'') (credentialHeaders credentials)
                 (JSON_stringify rt prf 0) w) = Inr response \<longrightarrow>
          (\<exists>msg. fst (verifyWebProof rt credentials prf w) = Inl (Error msg) \<and>
                 sublist (Number_toString (status response)) msg \<and>
                 sublist (bodyText response) msg))"
proof (intro conjI impI)
  let ?code = "Number_toString (status response)"
  let ?call = "fetch rt PROVE_URL (lit ''POST'') (credentialHeaders credentials)
                 (JSON_stringify rt (requestBody req) 0) w"
  assume "fst ?call = Inr response"
  then have f: "?call = (Inr response, snd ?call)"
    by (metis prod.collapse)
  let ?msg = "lit ''Vouch API error ('' @ ?code @ lit ''): '' @ bodyText response"
  have "fst (generateWebProof rt credentials req w) = Inl (Error ?msg)"
    unfolding generateWebProof_def by (subst f) (simp add: assms)
  with thrown_message [of ?code "lit ''Vouch API error (''" "lit ''): ''" "bodyText response"]
  show "\<exists>msg. fst (generateWebProof rt credentials req w) = Inl (Error msg) \<and>
      sublist ?code msg \<and> sublist (bodyText response) msg"
    by blast
next
  let ?code = "Number_toString (status response)"
  let ?call = "fetch rt VERIFY_URL (lit ''POST'') (credentialHeaders credentials)
                 (JSON_stringify rt prf 0) w"
  assume "fst ?call = Inr response"
  then have f: "?call = (Inr response, snd ?call)"
    by (metis prod.collapse)
  let ?msg = "lit ''Verification API error ('' @ ?code @ lit ''): '' @ bodyText response"
  have "fst (verifyWebProof rt credentials prf w) = Inl (Error ?msg)"
    unfolding verifyWebProof_def by (subst f) (simp add: assms)
  with thrown_message [of ?code "lit ''Verification API error (''" "lit ''): ''"
      "bodyText response"]
  show "\<exists>msg. fst (verifyWebProof rt credentials prf w) = Inl (Error msg) \<and>
      sublist ?code msg \<and> sublist (bodyText response) msg"
    by blast
qed

theorem nonSuccess_status_throws_witness:
  "\<not> ok forbidden \<and>
   failureDetail (fst (generateWebProof exampleRuntime exampleCredentials exampleRequest []))
     = Some (lit ''Vouch API error (403): forbidden'') \<and>
   (\<exists>msg. fst (generateWebProof exampleRuntime exampleCredentials exampleRequest [])
            = Inl (Error msg) \<and>
          sublist (lit ''403'') msg \<and> sublist (lit ''forbidden'') msg) \<and>
   (\<exists>msg. fst (verifyWebProof exampleRuntime exampleCredentials exampleProof [])
            = Inl (Error msg) \<and>
          sublist (lit ''403'') msg \<and> sublist (lit ''forbidden'') msg)"
proof -
  have nok: "\<not> ok forbidden"
    by (simp add: ok_def forbidden_def)
  have code: "Number_toString (status forbidden) = lit ''403''"
    by code_simp
  have body: "bodyText forbidden = lit ''forbidden''"
    by (simp add: forbidden_def)
  have f: "fst (fetch exampleRuntime u m hs b w) = Inr forbidden" for u m hs b w
    by (simp add: exampleRuntime_def recorder_def)
  have detail:
    "failureDetail (fst (generateWebProof exampleRuntime exampleCredentials exampleRequest []))
       = Some (lit ''Vouch API error (403): forbidden'')"
    by code_simp
  from nonSuccess_status_throws [OF nok, of exampleRuntime exampleCredentials exampleRequest
        "[]" exampleProof]
  have "(\<exists>msg. fst (generateWebProof exampleRuntime exampleCredentials exampleRequest [])
            = Inl (Error msg) \<and>
          sublist (lit ''403'') msg \<and> sublist (lit ''forbidden'') msg) \<and>
   (\<exists>msg. fst (verifyWebProof exampleRuntime exampleCredentials exampleProof [])
            = Inl (Error msg) \<and>
          sublist (lit ''403'') msg \<and> sublist (lit ''forbidden'') msg)"
    by (simp only: f code body simp_thms)
  with nok detail show ?thesis
    by blast
qed

section \<open>The artifact sink\<close>

text \<open>
  C7, as amended. For every proof, verification value, include-verification flag and
  pretty-print flag, \<open>return\<close> mode returns a JSON text in its \<open>json\<close> field and leaves the
  world as it is, and \<open>stdout\<close> mode writes that same text followed by one newline to
  standard output.
\<close>

theorem stdout_is_json_and_newline:
  "\<exists>js. outputProofArtifacts rt prf verification (output\<lparr>OutputOptions.mode := Return\<rparr>) w
           = (Inr \<lparr> ProofArtifactOutput.mode = Return, paths = None, json = Some js \<rparr>, w) \<and>
         outputProofArtifacts rt prf verification (output\<lparr>OutputOptions.mode := Stdout\<rparr>) w
           = (Inr \<lparr> ProofArtifactOutput.mode = Stdout, paths = None, json = None \<rparr>,
              stdout_write rt (js @ lit ''\<newline>'') w)"
  by (simp add: outputProofArtifacts_def indentOf_def combinedOutput_def Let_def)

theorem stdout_is_json_and_newline_witness:
  "returnedJson (outputProofArtifacts exampleRuntime exampleProof exampleVerification
                   (exampleOutput Return) []) = Some exampleJson \<and>
   emitted (snd (outputProofArtifacts exampleRuntime exampleProof exampleVerification
                   (exampleOutput Stdout) [])) = exampleJson @ lit ''\<newline>''"
proof -
  have r: "exampleOutput Return = (exampleOutput File)\<lparr>OutputOptions.mode := Return\<rparr>"
    and s: "exampleOutput Stdout = (exampleOutput File)\<lparr>OutputOptions.mode := Stdout\<rparr>"
    by (simp_all add: exampleOutput_def)
  from stdout_is_json_and_newline [of exampleRuntime exampleProof exampleVerification
      "exampleOutput File" "[]"]
  obtain js where
    ret: "outputProofArtifacts exampleRuntime exampleProof exampleVerification
            (exampleOutput Return) []
          = (Inr \<lparr> ProofArtifactOutput.mode = Return, paths = None, json = Some js \<rparr>, [])"
    and out: "outputProofArtifacts exampleRuntime exampleProof exampleVerification
            (exampleOutput Stdout) []
          = (Inr \<lparr> ProofArtifactOutput.mode = Stdout, paths = None, json = None \<rparr>,
             stdout_write exampleRuntime (js @ lit ''\<newline>'') [])"
    unfolding r s by blast
  have "returnedJson (outputProofArtifacts exampleRuntime exampleProof exampleVerification
                        (exampleOutput Return) []) = Some exampleJson"
    by code_simp
  with ret have js: "js = exampleJson"
    by (simp add: returnedJson_def)
  have "emitted (stdout_write exampleRuntime (js @ lit ''\<newline>'') [])
          = exampleJson @ lit ''\<newline>''"
    unfolding js by (simp add: exampleRuntime_def recorder_def)
  with ret out js show ?thesis
    by (simp add: returnedJson_def)
qed

text \<open>
  The claim as it stands fails: the text on standard output is not the text returned,
  it ends with a newline that the returned text does not have.
\<close>

theorem stdout_text_differs:
  "returnedJson (outputProofArtifacts exampleRuntime exampleProof exampleVerification
                   (exampleOutput Return) [])
   \<noteq> Some (emitted (snd (outputProofArtifacts exampleRuntime exampleProof exampleVerification
                            (exampleOutput Stdout) [])))"
  by (simp add: outputProofArtifacts_def returnedJson_def indentOf_def combinedOutput_def
        exampleRuntime_def recorder_def exampleOutput_def lit_def)

text \<open>
  C8. In \<open>file\<close> mode with no output directory (absent, or empty), the operation throws,
  and it does so before any call to the runtime: for every runtime the world comes back
  as it was given, so no directory is looked up or made and no file is written.
\<close>

theorem file_mode_needs_outputDir:
  assumes "OutputOptions.mode output = File"
    and "outputDir output = None \<or> outputDir output = Some []"
  shows "outputProofArtifacts rt prf verification output w
         = (Inl (Error (lit ''outputDir is required for file output mode'')), w)"
  using assms by (auto simp: outputProofArtifacts_def outputFile_def)

theorem file_mode_needs_outputDir_witness:
  "outputProofArtifacts exampleRuntime exampleProof exampleVerification
     ((exampleOutput File)\<lparr>outputDir := None\<rparr>) []
   = (Inl (Error (lit ''outputDir is required for file output mode'')), [])"
proof -
  have m: "OutputOptions.mode ((exampleOutput File)\<lparr>outputDir := None\<rparr>) = File"
    and d: "outputDir ((exampleOutput File)\<lparr>outputDir := None\<rparr>) = None
            \<or> outputDir ((exampleOutput File)\<lparr>outputDir := None\<rparr>) = Some []"
    by (simp_all add: exampleOutput_def)
  show ?thesis
    by (rule file_mode_needs_outputDir [OF m d])
qed

text \<open>
  C9. When \<open>file\<close> mode succeeds, the result holds both paths, the proof path and the
  verification path, each built from the directory, the prefix and the time stamp. This
  is so also when the verification is falsy (\<open>null\<close>) or \<open>includeVerification\<close> is false:
  then the last call made is the write of the proof file, and nothing was written at the
  verification path.
\<close>

theorem file_mode_returns_both_paths:
  assumes "OutputOptions.mode output = File"
    and "outputProofArtifacts rt prf verification output w = (Inr out, w')"
  shows "\<exists>dir w1. outputDir output = Some dir \<and> dir \<noteq> [] \<and>
           ensureDirectory rt dir w = (None, w1) \<and>
           ProofArtifactOutput.mode out = File \<and>
           paths out = Some (artifactPaths rt output dir w1) \<and>
           (\<not> truthy verification \<or> \<not> orTrue (includeVerification output) \<longrightarrow>
              writeFileSync rt (proofPath (artifactPaths rt output dir w1))
                (JSON_stringify rt prf (indentOf output)) w1 = (None, w'))"
proof -
  from assms have run: "outputFile rt prf verification output w = (Inr out, w')"
    by (simp add: outputProofArtifacts_def)
  then obtain dir where dir: "outputDir output = Some dir" "dir \<noteq> []"
    by (cases "outputDir output") (auto simp: outputFile_def split: if_splits)
  obtain e1 w1 where e: "ensureDirectory rt dir w = (e1, w1)"
    by (cases "ensureDirectory rt dir w")
  let ?ps = "artifactPaths rt output dir w1"
  obtain e2 w2 where p: "writeFileSync rt (proofPath ?ps)
                           (JSON_stringify rt prf (indentOf output)) w1 = (e2, w2)"
    by (cases "writeFileSync rt (proofPath ?ps) (JSON_stringify rt prf (indentOf output)) w1")
  from run dir e have e1: "e1 = None"
    by (cases e1) (simp_all add: outputFile_def)
  from run dir e e1 p have e2: "e2 = None"
    by (cases e2) (simp_all add: outputFile_def Let_def)
  from run dir e e1 p e2 have res: "ProofArtifactOutput.mode out = File \<and> paths out = Some ?ps"
    by (auto simp: outputFile_def Let_def split: if_splits prod.splits option.splits)
  have "w' = w2" if "\<not> truthy verification \<or> \<not> orTrue (includeVerification output)"
    using run dir e e1 p e2 that
    by (auto simp: outputFile_def Let_def)
  with dir e e1 p e2 res show ?thesis
    by auto
qed

theorem file_mode_returns_both_paths_witness:
  "fst (outputProofArtifacts exampleRuntime exampleProof JNull (exampleOutput File) [])
     = Inr \<lparr> ProofArtifactOutput.mode = File,
             paths = Some \<lparr> proofPath = lit ''proofs/proof-2026-01-15T10-30-00-000Z.json'',
                             verificationPath =
                               lit ''proofs/proof-verification-2026-01-15T10-30-00-000Z.json'' \<rparr>,
             json = None \<rparr> \<and>
   writtenPaths (snd (outputProofArtifacts exampleRuntime exampleProof JNull
                        (exampleOutput File) []))
     = [lit ''proofs/proof-2026-01-15T10-30-00-000Z.json'']"
proof -
  let ?run = "outputProofArtifacts exampleRuntime exampleProof JNull (exampleOutput File) []"
  let ?out = "\<lparr> ProofArtifactOutput.mode = File,
             paths = Some \<lparr> proofPath = lit ''proofs/proof-2026-01-15T10-30-00-000Z.json'',
                             verificationPath =
                               lit ''proofs/proof-verification-2026-01-15T10-30-00-000Z.json'' \<rparr>,
             json = None \<rparr>"
  have m: "OutputOptions.mode (exampleOutput File) = File"
    by (simp add: exampleOutput_def)
  have "fst ?run = Inr ?out"
    by code_simp
  then have run: "?run = (Inr ?out, snd ?run)"
    by (metis prod.collapse)
  from file_mode_returns_both_paths [OF m run]
  obtain dir w1 where d: "outputDir (exampleOutput File) = Some dir"
    and e: "ensureDirectory exampleRuntime dir [] = (None, w1)"
    and ps: "paths ?out = Some (artifactPaths exampleRuntime (exampleOutput File) dir w1)"
    and wr: "writeFileSync exampleRuntime
               (proofPath (artifactPaths exampleRuntime (exampleOutput File) dir w1))
               (JSON_stringify exampleRuntime exampleProof (indentOf (exampleOutput File))) w1
             = (None, snd ?run)"
    by auto
  from d have dir: "dir = lit ''proofs''"
    by (simp add: exampleOutput_def)
  from e have w1: "w1 = [ExistsSync (lit ''proofs''), MkdirSync (lit ''proofs'')]"
    by (simp add: dir ensureDirectory_def exampleRuntime_def recorder_def)
  from ps have pp: "proofPath (artifactPaths exampleRuntime (exampleOutput File) dir w1)
                      = lit ''proofs/proof-2026-01-15T10-30-00-000Z.json''"
    by (metis ProofArtifactPaths.select_convs(1) ProofArtifactOutput.select_convs(2) option.inject)
  have "writeFileSync exampleRuntime p c w1 = (None, w1 @ [WriteFileSync p c])" for p c
    by (simp add: exampleRuntime_def recorder_def)
  with wr have tr: "snd ?run = w1 @ [WriteFileSync (lit ''proofs/proof-2026-01-15T10-30-00-000Z.json'')
                      (JSON_stringify exampleRuntime exampleProof (indentOf (exampleOutput File)))]"
    unfolding pp by (metis snd_conv)
  have "writtenPaths (snd ?run) = [lit ''proofs/proof-2026-01-15T10-30-00-000Z.json'']"
    unfolding tr w1 by simp
  with \<open>fst ?run = Inr ?out\<close> show ?thesis
    by simp
qed

end
